theory Spec2Isabelle
  imports Main "HOL-Library.Word"
begin

unbundle bit_operations_syntax

section \<open>Errors\<close>

text \<open>
  Go's \<^verbatim>\<open>error\<close> values that \<^verbatim>\<open>tiff.go\<close> produces or inspects. \<open>EOF\<close> and
  \<open>ErrUnexpectedEOF\<close> are the two sentinels of package \<^verbatim>\<open>io\<close>; \<open>ErrNegativePosition\<close> is the
  error of an absolute seek before the start of the data; \<open>errUnhandledTagType\<close> is the
  sentinel the tag decoder returns for a type code it does not know; \<open>OtherError\<close> stands for
  any further error value; \<open>TiffError\<close> is the struct of the source, a message and an
  optional underlying error (\<open>None\<close> is Go's \<^verbatim>\<open>nil\<close>).
\<close>

datatype error =
    EOF
  | ErrUnexpectedEOF
  | ErrNegativePosition
  | errUnhandledTagType
  | OtherError string
  | TiffError string "error option"

definition newTiffError :: "string \<Rightarrow> error option \<Rightarrow> error" where
  "newTiffError msg err = TiffError msg err"

section \<open>The byte source\<close>

text \<open>
  \<^verbatim>\<open>Decode\<close> takes a \<^verbatim>\<open>ReadAtReaderSeeker\<close>. The repository hands it a
  \<^verbatim>\<open>bytes.Reader\<close> (see \<^verbatim>\<open>exif/gofuzz_test.go\<close>), which is what is modelled here: the
  immutable bytes \<open>rd_s\<close> and the current position \<open>rd_i\<close>.
\<close>

type_synonym byte = "8 word"
type_synonym int16 = "16 word"
type_synonym int32 = "32 word"
type_synonym int64 = "64 word"

record Reader =
  rd_s :: "byte list"
  rd_i :: int

definition NewReader :: "byte list \<Rightarrow> Reader" where
  "NewReader b = \<lparr>rd_s = b, rd_i = 0\<rparr>"

text \<open>
  \<^verbatim>\<open>io.ReadFull(r, buf)\<close> with \<open>n = len(buf)\<close>: all \<open>n\<close> bytes, or \<open>EOF\<close> when no byte was
  left, or \<open>ErrUnexpectedEOF\<close> when some but fewer than \<open>n\<close> bytes were left. The position
  moves past whatever was read.
\<close>

definition ReadFull :: "Reader \<Rightarrow> nat \<Rightarrow> (error + byte list) \<times> Reader" where
  "ReadFull r n =
     (if n = 0 then (Inr [], r)
      else if int (length (rd_s r)) \<le> rd_i r then (Inl EOF, r)
      else
        (let avail = take n (drop (nat (rd_i r)) (rd_s r)) in
         if length avail < n
         then (Inl ErrUnexpectedEOF, r\<lparr>rd_i := rd_i r + int (length avail)\<rparr>)
         else (Inr avail, r\<lparr>rd_i := rd_i r + int n\<rparr>)))"

text \<open>\<^verbatim>\<open>r.Seek(offset, 0)\<close>: an absolute seek; only a negative position is refused.\<close>

definition Seek :: "Reader \<Rightarrow> int64 \<Rightarrow> error + Reader" where
  "Seek r offset =
     (if sint offset < 0 then Inl ErrNegativePosition
      else Inr (r\<lparr>rd_i := sint offset\<rparr>))"

section \<open>Fixed-width integers in either byte order\<close>

datatype ByteOrder = LittleEndian | BigEndian

definition le_word :: "byte list \<Rightarrow> 'a::len word" where
  "le_word bs = foldr (\<lambda>b acc. ucast b OR push_bit 8 acc) bs 0"

definition be_word :: "byte list \<Rightarrow> 'a::len word" where
  "be_word bs = foldl (\<lambda>acc b. push_bit 8 acc OR ucast b) 0 bs"

definition order_word :: "ByteOrder \<Rightarrow> byte list \<Rightarrow> 'a::len word" where
  "order_word order bs = (case order of LittleEndian \<Rightarrow> le_word bs | BigEndian \<Rightarrow> be_word bs)"

text \<open>
  \<^verbatim>\<open>binary.Read(r, order, &x)\<close> for \<open>x\<close> an integer of \<open>n\<close> bytes: \<^verbatim>\<open>io.ReadFull\<close> of \<open>n\<close>
  bytes, whose error is returned as it is, then the bytes assembled in the given order.
\<close>

definition binary_Read :: "Reader \<Rightarrow> ByteOrder \<Rightarrow> nat \<Rightarrow> (error + 'a::len word) \<times> Reader" where
  "binary_Read r order n =
     (case ReadFull r n of
        (Inl err, r') \<Rightarrow> (Inl err, r')
      | (Inr bs, r') \<Rightarrow> (Inr (order_word order bs), r'))"

section \<open>The offset resolver\<close>

definition readOffset :: "Reader \<Rightarrow> ByteOrder \<Rightarrow> bool \<Rightarrow> (error + int64) \<times> Reader" where
  "readOffset r order isBigTIFF =
     (if isBigTIFF then binary_Read r order 8
      else
        (case binary_Read r order 4 of
           (Inl err, r') \<Rightarrow> (Inl err, r')
         | (Inr (offset :: int32), r') \<Rightarrow> (Inr (scast offset), r')))"

section \<open>The directory decoder\<close>

record 'tag Dir =
  Tags :: "'tag list"

text \<open>
  \<^verbatim>\<open>DecodeTag\<close> lives in a file of the package that is not at hand, so it is a parameter
  \<open>dt\<close> of everything below: from the bytes, the position, the byte order and the variant
  flag it gives a tag or an error, and the position it leaves the reader at. A
  \<^verbatim>\<open>ReadAtReader\<close> cannot be written to, so the bytes stay as they are.
\<close>

type_synonym 'tag tag_decoder =
  "byte list \<Rightarrow> int \<Rightarrow> ByteOrder \<Rightarrow> bool \<Rightarrow> (error + 'tag) \<times> int"

definition DecodeTag :: "'tag tag_decoder \<Rightarrow> Reader \<Rightarrow> ByteOrder \<Rightarrow> bool \<Rightarrow> (error + 'tag) \<times> Reader" where
  "DecodeTag dt r order isBigTIFF =
     (case dt (rd_s r) (rd_i r) order isBigTIFF of (res, p) \<Rightarrow> (res, r\<lparr>rd_i := p\<rparr>))"

text \<open>
  The tag loop \<^verbatim>\<open>for n := 0; n < int(nTags); n++\<close> with \<open>k\<close> iterations left: an unhandled
  type is skipped, any other error ends \<^verbatim>\<open>DecodeDir\<close>, a tag is appended.
\<close>

fun load_tags :: "'tag tag_decoder \<Rightarrow> ByteOrder \<Rightarrow> bool \<Rightarrow> nat \<Rightarrow> Reader \<Rightarrow> 'tag list
    \<Rightarrow> (error + 'tag list) \<times> Reader" where
  "load_tags dt order isBigTIFF 0 r tags = (Inr tags, r)"
| "load_tags dt order isBigTIFF (Suc k) r tags =
     (case DecodeTag dt r order isBigTIFF of
        (Inl err, r') \<Rightarrow>
          if err = errUnhandledTagType then load_tags dt order isBigTIFF k r' tags
          else (Inl err, r')
      | (Inr t, r') \<Rightarrow> load_tags dt order isBigTIFF k r' (tags @ [t]))"

text \<open>
  The tag count: \<^verbatim>\<open>int64\<close> read directly in the big variant, \<^verbatim>\<open>int16\<close> read and
  sign-extended in the classic one.
\<close>

definition read_nTags :: "Reader \<Rightarrow> ByteOrder \<Rightarrow> bool \<Rightarrow> (error + int64) \<times> Reader" where
  "read_nTags r order isBigTIFF =
     (if isBigTIFF then binary_Read r order 8
      else
        (case binary_Read r order 2 of
           (Inl err, r') \<Rightarrow> (Inl err, r')
         | (Inr (nTagsShort :: int16), r') \<Rightarrow> (Inr (scast nTagsShort), r')))"

text \<open>
  \<^verbatim>\<open>DecodeDir\<close>. The loop bound \<^verbatim>\<open>int(nTags)\<close> is the signed value of the count (on a
  platform whose \<^verbatim>\<open>int\<close> has 64 bits), so the loop runs \<open>nat (sint nTags)\<close> times: not at
  all for a negative count. Every error return of the source gives the offset 0.
\<close>

definition DecodeDir :: "'tag tag_decoder \<Rightarrow> Reader \<Rightarrow> ByteOrder \<Rightarrow> bool
    \<Rightarrow> (error + 'tag Dir \<times> int64) \<times> Reader" where
  "DecodeDir dt r order isBigTIFF =
     (case read_nTags r order isBigTIFF of
        (Inl err, r1) \<Rightarrow> (Inl (newTiffError ''failed to read IFD tag count'' (Some err)), r1)
      | (Inr nTags, r1) \<Rightarrow>
          (case load_tags dt order isBigTIFF (nat (sint nTags)) r1 [] of
             (Inl err, r2) \<Rightarrow> (Inl err, r2)
           | (Inr tags, r2) \<Rightarrow>
               (case readOffset r2 order isBigTIFF of
                  (Inl err, r3) \<Rightarrow>
                    (Inl (newTiffError ''failed to read offset to next IFD'' (Some err)), r3)
                | (Inr offset, r3) \<Rightarrow> (Inr (\<lparr>Tags = tags\<rparr>, offset), r3))))"

section \<open>The container decoder\<close>

record 'tag Tiff =
  Dirs :: "'tag Dir list"
  Order :: ByteOrder
  IsBig :: bool

text \<open>The test \<^verbatim>\<open>e, ok := err.(TiffError); ok && e.Err == io.EOF\<close>.\<close>

fun is_TiffError_EOF :: "error \<Rightarrow> bool" where
  "is_TiffError_EOF (TiffError msg (Some EOF)) = True"
| "is_TiffError_EOF _ = False"

text \<open>
  One round of the loop \<^verbatim>\<open>for offset != 0\<close> of \<^verbatim>\<open>Decode\<close>, entered with the reader, \<open>offset\<close>,
  \<open>prev\<close> and the result \<open>t\<close> built so far. It either leaves \<^verbatim>\<open>Decode\<close> with an error or goes
  back to the loop test with new values of the four. All three error returns of
  \<^verbatim>\<open>DecodeDir\<close> are \<^verbatim>\<open>return nil, 0, err\<close>, so on the end-of-input branch the assignment
  \<^verbatim>\<open>d, offset, err = DecodeDir(...)\<close> has stored the offset 0 before \<^verbatim>\<open>continue\<close>.
\<close>

datatype 'tag round =
    Abort error
  | Continue Reader int64 int64 "'tag Tiff"

definition Decode_round :: "'tag tag_decoder \<Rightarrow> Reader \<Rightarrow> int64 \<Rightarrow> int64 \<Rightarrow> 'tag Tiff
    \<Rightarrow> 'tag round" where
  "Decode_round dt r offset prev t =
     (case Seek r offset of
        Inl err \<Rightarrow> Abort (newTiffError ''seek to IFD failed'' (Some err))
      | Inr r1 \<Rightarrow>
          (case DecodeDir dt r1 (Order t) (IsBig t) of
             (Inl err, r2) \<Rightarrow>
               if is_TiffError_EOF err then Continue r2 0 prev t
               else Abort err
           | (Inr (d, offset'), r2) \<Rightarrow>
               if offset' = prev then Abort (newTiffError ''recursive IFD'' None)
               else Continue r2 offset' offset' (t\<lparr>Dirs := Dirs t @ [d]\<rparr>)))"

text \<open>
  The loop itself. Nothing bounds the number of rounds, so it is a partial function:
  \<open>None\<close> means that the loop never returns.
\<close>

partial_function (option) Decode_loop :: "'tag tag_decoder \<Rightarrow> Reader \<Rightarrow> int64 \<Rightarrow> int64 \<Rightarrow> 'tag Tiff
    \<Rightarrow> (error + 'tag Tiff) option" where
  "Decode_loop dt r offset prev t =
     (if offset = 0 then Some (Inr t)
      else
        (case Decode_round dt r offset prev t of
           Abort err \<Rightarrow> Some (Inl err)
         | Continue r' offset' prev' t' \<Rightarrow> Decode_loop dt r' offset' prev' t'))"

declare Decode_loop.simps [code]

definition II :: "byte list" where
  "II = [0x49, 0x49]"

definition MM :: "byte list" where
  "MM = [0x4D, 0x4D]"

text \<open>
  The part of \<^verbatim>\<open>Decode\<close> before the loop: byte order, marker, the seek to 8 of the big
  variant and the offset of the first IFD. It gives the byte order, the variant flag, that
  offset and the reader after it.
\<close>

definition Decode_header :: "Reader \<Rightarrow> error + ByteOrder \<times> bool \<times> int64 \<times> Reader" where
  "Decode_header r =
     (case ReadFull r 2 of
        (Inl err, r1) \<Rightarrow> Inl (newTiffError ''could not read tiff byte order'' (Some err))
      | (Inr bo, r1) \<Rightarrow>
          (case (if bo = II then Some LittleEndian
                 else if bo = MM then Some BigEndian else None) of
             None \<Rightarrow> Inl (newTiffError ''could not read tiff byte order'' None)
           | Some order \<Rightarrow>
               (case binary_Read r1 order 2 of
                  (Inl err, r2) \<Rightarrow>
                    Inl (newTiffError ''could not find special tiff marker'' (Some err))
                | (Inr (sp :: int16), r2) \<Rightarrow>
                    if 42 \<noteq> sp \<and> 43 \<noteq> sp
                    then Inl (newTiffError ''could not find special tiff marker'' None)
                    else
                      (case (if 43 = sp then Seek r2 8 else Inr r2) of
                         Inl err \<Rightarrow>
                           Inl (newTiffError ''could not seek to first IFD'' (Some err))
                       | Inr r3 \<Rightarrow>
                           (case readOffset r3 order (43 = sp) of
                              (Inl err, r4) \<Rightarrow>
                                Inl (newTiffError ''could not read offset to first IFD''
                                  (Some err))
                            | (Inr offset, r4) \<Rightarrow> Inr (order, 43 = sp, offset, r4))))))"

text \<open>\<^verbatim>\<open>Decode\<close>: the header, then the loop with \<^verbatim>\<open>prev := offset\<close> and an empty result.\<close>

definition Decode :: "'tag tag_decoder \<Rightarrow> Reader \<Rightarrow> (error + 'tag Tiff) option" where
  "Decode dt r =
     (case Decode_header r of
        Inl err \<Rightarrow> Some (Inl err)
      | Inr (order, isBig, offset, r') \<Rightarrow>
          Decode_loop dt r' offset offset \<lparr>Dirs = [], Order = order, IsBig = isBig\<rparr>)"

section \<open>The walk along the IFD chain\<close>

text \<open>
  \<open>Decode_walk dt r0 vis r offset t\<close>: started on the reader \<open>r0\<close>, \<^verbatim>\<open>Decode\<close> arrives at the
  loop test with the reader \<open>r\<close>, the offset \<open>offset\<close> (and \<open>prev\<close> equal to it) and the result
  \<open>t\<close>, after rounds that each decoded an IFD and appended it; \<open>vis\<close> lists, in order, the
  offsets of those IFDs.
\<close>

inductive Decode_walk :: "'tag tag_decoder \<Rightarrow> Reader \<Rightarrow> int64 list \<Rightarrow> Reader \<Rightarrow> int64 \<Rightarrow> 'tag Tiff
    \<Rightarrow> bool" for dt :: "'tag tag_decoder" and r0 :: Reader where
  start: "Decode_header r0 = Inr (order, isBig, offset, r) \<Longrightarrow>
     Decode_walk dt r0 [] r offset \<lparr>Dirs = [], Order = order, IsBig = isBig\<rparr>"
| visit: "Decode_walk dt r0 vis r offset t \<Longrightarrow> offset \<noteq> 0 \<Longrightarrow> Seek r offset = Inr r1 \<Longrightarrow>
     DecodeDir dt r1 (Order t) (IsBig t) = (Inr (d, offset'), r2) \<Longrightarrow> offset' \<noteq> offset \<Longrightarrow>
     Decode_walk dt r0 (vis @ [offset]) r2 offset' (t\<lparr>Dirs := Dirs t @ [d]\<rparr>)"

text \<open>From the decoder and the input, the loop tests of the walk can be enumerated in order.\<close>

code_pred (modes: i \<Rightarrow> i \<Rightarrow> o \<Rightarrow> o \<Rightarrow> o \<Rightarrow> o \<Rightarrow> bool as Decode_walk_heads) Decode_walk .

section \<open>The directory decoder as the specification describes it\<close>





section \<open>Links between IFDs\<close>

text \<open>
  \<open>ifd_next\<close> is the link that a round follows from the IFD at \<open>offset\<close> when it decodes
  it and appends it: the next offset, if the IFD can be decoded and does not name itself.
  It depends on the bytes only, not on the reader's position. \<open>chain f xs z\<close> says that
  the list \<open>xs\<close> followed by \<open>z\<close> follows the links \<open>f\<close>.
\<close>

definition ifd_next :: "'tag tag_decoder \<Rightarrow> byte list \<Rightarrow> ByteOrder \<Rightarrow> bool \<Rightarrow> int64 \<Rightarrow> int64 option" where
  "ifd_next dt s order isBig offset =
     (if offset = 0 then None
      else
        (case Seek \<lparr>rd_s = s, rd_i = 0\<rparr> offset of
           Inl err \<Rightarrow> None
         | Inr r1 \<Rightarrow>
             (case DecodeDir dt r1 order isBig of
                (Inl err, r2) \<Rightarrow> None
              | (Inr (d, offset'), r2) \<Rightarrow> if offset' = offset then None else Some offset')))"

fun chain :: "('a \<Rightarrow> 'a option) \<Rightarrow> 'a list \<Rightarrow> 'a \<Rightarrow> bool" where
  "chain f [] z = True"
| "chain f (x # xs) z = (f x = Some (case xs of [] \<Rightarrow> z | y # ys \<Rightarrow> y) \<and> chain f xs z)"

text \<open>
  Whether a round leads to another round: it did not leave \<^verbatim>\<open>Decode\<close>, and the offset it
  goes back to the loop test with is not 0.
\<close>

definition walk_goes_on :: "'tag round \<Rightarrow> bool" where
  "walk_goes_on rnd =
     (case rnd of Abort err \<Rightarrow> False | Continue r offset prev t \<Rightarrow> offset \<noteq> 0)"

section \<open>Concrete inputs\<close>

text \<open>
  Modelled from the spec: the Tag Decoder of section 4.4, whose source file is not at hand,
  cut down to what the examples below need. It reads a record of 12 bytes; a type code
  outside 1..12 is an unhandled type; the tag is represented by its id.
\<close>

definition sample_DecodeTag :: "nat tag_decoder" where
  "sample_DecodeTag s p order isBigTIFF =
     (case ReadFull \<lparr>rd_s = s, rd_i = p\<rparr> 12 of
        (Inl err, r') \<Rightarrow> (Inl (newTiffError ''tag read failed'' (Some err)), rd_i r')
      | (Inr bs, r') \<Rightarrow>
          (let typ = (order_word order (take 2 (drop 2 bs)) :: int16) in
           if typ = 0 \<or> 12 < typ then (Inl errUnhandledTagType, rd_i r')
           else (Inr (unat (order_word order (take 2 bs) :: int16)), rd_i r')))"

text \<open>The minimal TIFF in both byte orders and both variants: a header and one empty IFD.\<close>

definition minimal_II :: "byte list" where
  "minimal_II = [0x49, 0x49, 42, 0,  8, 0, 0, 0,  0, 0,  0, 0, 0, 0]"

definition minimal_MM :: "byte list" where
  "minimal_MM = [0x4D, 0x4D, 0, 42,  0, 0, 0, 8,  0, 0,  0, 0, 0, 0]"

definition minimal_big_II :: "byte list" where
  "minimal_big_II = [0x49, 0x49, 43, 0,  8, 0, 0, 0,  16, 0, 0, 0, 0, 0, 0, 0,
     0, 0, 0, 0, 0, 0, 0, 0,  0, 0, 0, 0, 0, 0, 0, 0]"

definition minimal_big_MM :: "byte list" where
  "minimal_big_MM = [0x4D, 0x4D, 0, 43,  0, 8, 0, 0,  0, 0, 0, 0, 0, 0, 0, 16,
     0, 0, 0, 0, 0, 0, 0, 0,  0, 0, 0, 0, 0, 0, 0, 0]"

text \<open>A header whose first offset is 0.\<close>

definition no_ifd :: "byte list" where
  "no_ifd = [0x49, 0x49, 42, 0,  0, 0, 0, 0]"

text \<open>One empty IFD at 8 whose next offset is 8 again.\<close>

definition self_loop :: "byte list" where
  "self_loop = [0x49, 0x49, 42, 0,  8, 0, 0, 0,  0, 0,  8, 0, 0, 0]"

text \<open>Two empty IFDs, at 8 and at 14, each naming the other as its successor.\<close>

definition two_cycle :: "byte list" where
  "two_cycle = [0x49, 0x49, 42, 0,  8, 0, 0, 0,  0, 0,  14, 0, 0, 0,  0, 0,  8, 0, 0, 0]"

text \<open>Two empty IFDs, at 8 and at 14; the second one's next offset is 100, in a file of 20 bytes.\<close>

definition dangling :: "byte list" where
  "dangling = [0x49, 0x49, 42, 0,  8, 0, 0, 0,  0, 0,  14, 0, 0, 0,  0, 0,  100, 0, 0, 0]"

text \<open>
  The same two IFDs, with the second one's next-offset field \<^verbatim>\<open>FF FF FF FF\<close>: 4294967295 as
  the unsigned offset of a TIFF file, far past the end of these 20 bytes.
\<close>

definition dangling_high :: "byte list" where
  "dangling_high =
     [0x49, 0x49, 42, 0,  8, 0, 0, 0,  0, 0,  14, 0, 0, 0,  0, 0,  0xFF, 0xFF, 0xFF, 0xFF]"

text \<open>One IFD at 8 whose count field is 0xFFFF, followed by the next offset 0.\<close>

definition negative_count :: "byte list" where
  "negative_count = [0x49, 0x49, 42, 0,  8, 0, 0, 0,  0xFF, 0xFF,  0, 0, 0, 0]"

text \<open>A header whose first offset field holds 0x80000000.\<close>

definition high_offset :: "byte list" where
  "high_offset = [0x49, 0x49, 42, 0,  0, 0, 0, 0x80]"


text \<open>The loop tests that the walk through \<open>two_cycle\<close> passes.\<close>

definition on_two_cycle :: "Reader \<Rightarrow> int64 \<Rightarrow> int64 \<Rightarrow> 'tag Tiff \<Rightarrow> bool" where
  "on_two_cycle r offset prev t =
     (rd_s r = two_cycle \<and> (offset = 8 \<or> offset = 14) \<and> prev = offset \<and>
      Order t = LittleEndian \<and> IsBig t = False)"

section \<open>Basic facts\<close>

lemmas tiff_eval =
  Decode_def Decode_header_def Decode_round_def ReadFull_def NewReader_def II_def MM_def
  binary_Read_def order_word_def le_word_def be_word_def readOffset_def Seek_def DecodeDir_def
  DecodeTag_def read_nTags_def newTiffError_def Let_def

lemma Decode_loop_exit: "Decode_loop dt r 0 prev t = Some (Inr t)"
  by (subst Decode_loop.simps) simp

lemma Decode_loop_abort:
  "offset \<noteq> 0 \<Longrightarrow> Decode_round dt r offset prev t = Abort err \<Longrightarrow>
   Decode_loop dt r offset prev t = Some (Inl err)"
  by (subst Decode_loop.simps) simp

lemma Decode_loop_continue:
  "offset \<noteq> 0 \<Longrightarrow> Decode_round dt r offset prev t = Continue r' offset' prev' t' \<Longrightarrow>
   Decode_loop dt r offset prev t = Decode_loop dt r' offset' prev' t'"
  by (subst Decode_loop.simps) simp

lemma Decode_round_visit:
  "Seek r offset = Inr r1 \<Longrightarrow> DecodeDir dt r1 (Order t) (IsBig t) = (Inr (d, offset'), r2) \<Longrightarrow>
   offset' \<noteq> prev \<Longrightarrow>
   Decode_round dt r offset prev t = Continue r2 offset' offset' (t\<lparr>Dirs := Dirs t @ [d]\<rparr>)"
  by (simp add: Decode_round_def)

lemma Decode_round_recursive:
  "Seek r offset = Inr r1 \<Longrightarrow> DecodeDir dt r1 (Order t) (IsBig t) = (Inr (d, prev), r2) \<Longrightarrow>
   Decode_round dt r offset prev t = Abort (newTiffError ''recursive IFD'' None)"
  by (simp add: Decode_round_def)

lemma Decode_round_skip:
  "Seek r offset = Inr r1 \<Longrightarrow> DecodeDir dt r1 (Order t) (IsBig t) = (Inl err, r2) \<Longrightarrow>
   is_TiffError_EOF err \<Longrightarrow> Decode_round dt r offset prev t = Continue r2 0 prev t"
  by (simp add: Decode_round_def)

lemma Decode_round_seek_failed:
  "sint offset < 0 \<Longrightarrow>
   Decode_round dt r offset prev t =
     Abort (newTiffError ''seek to IFD failed'' (Some ErrNegativePosition))"
  by (simp add: Decode_round_def Seek_def)

text \<open>Every loop test that the walk arrives at decides the result of \<^verbatim>\<open>Decode\<close>.\<close>

lemma Decode_walk_loop:
  "Decode_walk dt r0 vis r offset t \<Longrightarrow> Decode dt r0 = Decode_loop dt r offset offset t"
proof (induction rule: Decode_walk.induct)
  case (start order isBig offset r)
  then show ?case by (simp add: Decode_def)
next
  case (visit vis r offset t r1 d offset' r2)
  have "Decode_loop dt r offset offset t =
      Decode_loop dt r2 offset' offset' (t\<lparr>Dirs := Dirs t @ [d]\<rparr>)"
    using visit.hyps by (intro Decode_loop_continue Decode_round_visit) auto
  with visit.IH show ?case by simp
qed

lemma sint_scast_int16: "sint (scast (w :: int16) :: int64) = sint w"
  by (rule sint_up_scast) (simp add: is_up)

lemma sint_scast_int32: "sint (scast (w :: int32) :: int64) = sint w"
  by (rule sint_up_scast) (simp add: is_up)

lemma sint_int32_high:
  assumes "2 ^ 31 \<le> uint (v :: int32)"
  shows "sint v = uint v - 2 ^ 32"
proof -
  have lt: "uint v < 2 ^ 32"
    using uint_lt2p [of v] by simp
  have "uint v div 2147483648 = 1"
    using assms lt by simp
  then have bt: "bit (uint v) 31"
    by (simp add: bit_iff_odd)
  have tb: "take_bit 32 (uint v) = uint v"
    using lt by (simp add: take_bit_int_eq_self)
  show ?thesis
    using bt tb by (simp add: sint_uint signed_take_bit_eq_take_bit_minus)
qed

section \<open>The reader's bytes and position\<close>

lemma ReadFull_rd_s: "ReadFull r n = (res, r') \<Longrightarrow> rd_s r' = rd_s r"
  by (auto simp: ReadFull_def Let_def split: if_splits)

lemma binary_Read_rd_s: "binary_Read r order n = (res, r') \<Longrightarrow> rd_s r' = rd_s r"
  by (auto simp: binary_Read_def split: prod.splits sum.splits dest: ReadFull_rd_s)

lemma readOffset_rd_s: "readOffset r order isBigTIFF = (res, r') \<Longrightarrow> rd_s r' = rd_s r"
  by (auto simp: readOffset_def split: if_splits prod.splits sum.splits dest: binary_Read_rd_s)

lemma read_nTags_rd_s: "read_nTags r order isBigTIFF = (res, r') \<Longrightarrow> rd_s r' = rd_s r"
  by (auto simp: read_nTags_def split: if_splits prod.splits sum.splits dest: binary_Read_rd_s)

lemma DecodeTag_rd_s: "DecodeTag dt r order isBigTIFF = (res, r') \<Longrightarrow> rd_s r' = rd_s r"
  by (auto simp: DecodeTag_def split: prod.splits)

lemma load_tags_rd_s:
  "load_tags dt order isBigTIFF k r tags = (res, r') \<Longrightarrow> rd_s r' = rd_s r"
proof (induction k arbitrary: r tags)
  case 0
  then show ?case by simp
next
  case (Suc k)
  obtain x r1 where dt: "DecodeTag dt r order isBigTIFF = (x, r1)"
    by (cases "DecodeTag dt r order isBigTIFF")
  have r1: "rd_s r1 = rd_s r"
    using dt by (rule DecodeTag_rd_s)
  show ?case
  proof (cases x)
    case (Inl err)
    with Suc.prems dt r1 Suc.IH [of r1 tags] show ?thesis
      by (auto split: if_splits)
  next
    case (Inr tg)
    with Suc.prems dt r1 Suc.IH [of r1 "tags @ [tg]"] show ?thesis
      by auto
  qed
qed

lemma DecodeDir_rd_s: "DecodeDir dt r order isBigTIFF = (res, r') \<Longrightarrow> rd_s r' = rd_s r"
  by (auto simp: DecodeDir_def split: prod.splits sum.splits
      dest!: read_nTags_rd_s load_tags_rd_s readOffset_rd_s)

lemma Seek_rd_s: "Seek r offset = Inr r' \<Longrightarrow> rd_s r' = rd_s r \<and> rd_i r' = sint offset \<and> 0 \<le> sint offset"
  by (auto simp: Seek_def split: if_splits)

lemma ReadFull_at_end:
  "0 < n \<Longrightarrow> int (length (rd_s r)) \<le> rd_i r \<Longrightarrow> ReadFull r n = (Inl EOF, r)"
  by (simp add: ReadFull_def)

lemma ReadFull_Inr_inside:
  "0 < n \<Longrightarrow> ReadFull r n = (Inr bs, r') \<Longrightarrow> rd_i r < int (length (rd_s r))"
  by (auto simp: ReadFull_def Let_def split: if_splits)

lemma read_nTags_at_end:
  "int (length (rd_s r)) \<le> rd_i r \<Longrightarrow> read_nTags r order isBigTIFF = (Inl EOF, r)"
  by (simp add: read_nTags_def binary_Read_def ReadFull_at_end)

lemma read_nTags_Inr_inside:
  "read_nTags r order isBigTIFF = (Inr n, r') \<Longrightarrow> rd_i r < int (length (rd_s r))"
  by (auto simp: read_nTags_def binary_Read_def split: if_splits prod.splits sum.splits
      dest: ReadFull_Inr_inside [rotated])

lemma DecodeDir_at_end:
  "int (length (rd_s r)) \<le> rd_i r \<Longrightarrow>
   DecodeDir dt r order isBigTIFF =
     (Inl (newTiffError ''failed to read IFD tag count'' (Some EOF)), r)"
  by (simp add: DecodeDir_def read_nTags_at_end)

lemma DecodeDir_Inr_inside:
  "DecodeDir dt r order isBigTIFF = (Inr x, r') \<Longrightarrow> rd_i r < int (length (rd_s r))"
  by (auto simp: DecodeDir_def split: prod.splits sum.splits dest: read_nTags_Inr_inside)

lemma Decode_walk_skip:
  assumes "Decode_walk dt r0 vis r offset t"
    and "offset \<noteq> 0"
    and "Seek r offset = Inr r1"
    and "DecodeDir dt r1 (Order t) (IsBig t) = (Inl err, r2)"
    and "is_TiffError_EOF err"
  shows "Decode dt r0 = Some (Inr t)"
proof -
  have "Decode_round dt r offset offset t = Continue r2 0 offset t"
    using assms(3-5) by (rule Decode_round_skip)
  then have "Decode_loop dt r offset offset t = Decode_loop dt r2 0 offset t"
    using assms(2) by (rule Decode_loop_continue [rotated])
  then have "Decode_loop dt r offset offset t = Some (Inr t)"
    by (simp add: Decode_loop_exit)
  with Decode_walk_loop [OF assms(1)] show ?thesis by simp
qed


section \<open>Evaluation on the concrete inputs\<close>

lemmas read_eval =
  binary_Read_def ReadFull_def order_word_def le_word_def be_word_def readOffset_def
  read_nTags_def Let_def

lemma no_ifd_header:
  "Decode_header (NewReader no_ifd) = Inr (LittleEndian, False, 0, \<lparr>rd_s = no_ifd, rd_i = 8\<rparr>)"
  by (simp add: tiff_eval no_ifd_def)

lemma negative_count_read:
  "binary_Read \<lparr>rd_s = negative_count, rd_i = 8\<rparr> LittleEndian 2 =
     (Inr (0xFFFF :: int16), \<lparr>rd_s = negative_count, rd_i = 10\<rparr>)"
  by (simp add: read_eval negative_count_def)

lemma negative_count_next:
  "readOffset \<lparr>rd_s = negative_count, rd_i = 10\<rparr> LittleEndian False =
     (Inr 0, \<lparr>rd_s = negative_count, rd_i = 14\<rparr>)"
  by (simp add: read_eval negative_count_def)

lemma self_loop_header:
  "Decode_header (NewReader self_loop) =
     Inr (LittleEndian, False, 8, \<lparr>rd_s = self_loop, rd_i = 8\<rparr>)"
  by (simp add: tiff_eval self_loop_def)

lemma self_loop_dir:
  "DecodeDir sample_DecodeTag \<lparr>rd_s = self_loop, rd_i = 8\<rparr> LittleEndian False =
     (Inr (\<lparr>Tags = []\<rparr>, 8), \<lparr>rd_s = self_loop, rd_i = 14\<rparr>)"
  by (simp add: tiff_eval self_loop_def)

lemma dangling_header:
  "Decode_header (NewReader dangling) =
     Inr (LittleEndian, False, 8, \<lparr>rd_s = dangling, rd_i = 8\<rparr>)"
  by (simp add: tiff_eval dangling_def)

lemma dangling_dir_8:
  "DecodeDir sample_DecodeTag \<lparr>rd_s = dangling, rd_i = 8\<rparr> LittleEndian False =
     (Inr (\<lparr>Tags = []\<rparr>, 14), \<lparr>rd_s = dangling, rd_i = 14\<rparr>)"
  by (simp add: tiff_eval dangling_def)

lemma dangling_dir_14:
  "DecodeDir sample_DecodeTag \<lparr>rd_s = dangling, rd_i = 14\<rparr> LittleEndian False =
     (Inr (\<lparr>Tags = []\<rparr>, 100), \<lparr>rd_s = dangling, rd_i = 20\<rparr>)"
  by (simp add: tiff_eval dangling_def)

lemma dangling_dir_100:
  "DecodeDir sample_DecodeTag \<lparr>rd_s = dangling, rd_i = 100\<rparr> LittleEndian False =
     (Inl (TiffError ''failed to read IFD tag count'' (Some EOF)), \<lparr>rd_s = dangling, rd_i = 100\<rparr>)"
  by (simp add: tiff_eval dangling_def)

lemma dangling_walk_8:
  "Decode_walk sample_DecodeTag (NewReader dangling) [] \<lparr>rd_s = dangling, rd_i = 8\<rparr> 8
     \<lparr>Dirs = [], Order = LittleEndian, IsBig = False\<rparr>"
  using dangling_header by (rule Decode_walk.start)

lemma dangling_walk_14:
  "Decode_walk sample_DecodeTag (NewReader dangling) [8] \<lparr>rd_s = dangling, rd_i = 14\<rparr> 14
     \<lparr>Dirs = [\<lparr>Tags = []\<rparr>], Order = LittleEndian, IsBig = False\<rparr>"
  using Decode_walk.visit [OF dangling_walk_8, of "\<lparr>rd_s = dangling, rd_i = 8\<rparr>"
      "\<lparr>Tags = []\<rparr>" 14 "\<lparr>rd_s = dangling, rd_i = 14\<rparr>"]
  by (simp add: Seek_def dangling_dir_8)

lemma dangling_walk_100:
  "Decode_walk sample_DecodeTag (NewReader dangling) [8, 14] \<lparr>rd_s = dangling, rd_i = 20\<rparr> 100
     \<lparr>Dirs = [\<lparr>Tags = []\<rparr>, \<lparr>Tags = []\<rparr>], Order = LittleEndian, IsBig = False\<rparr>"
  using Decode_walk.visit [OF dangling_walk_14, of "\<lparr>rd_s = dangling, rd_i = 14\<rparr>"
      "\<lparr>Tags = []\<rparr>" 100 "\<lparr>rd_s = dangling, rd_i = 20\<rparr>"]
  by (simp add: Seek_def dangling_dir_14)

lemma dangling_high_header:
  "Decode_header (NewReader dangling_high) =
     Inr (LittleEndian, False, 8, \<lparr>rd_s = dangling_high, rd_i = 8\<rparr>)"
  by (simp add: tiff_eval dangling_high_def)

lemma dangling_high_dir_8:
  "DecodeDir sample_DecodeTag \<lparr>rd_s = dangling_high, rd_i = 8\<rparr> LittleEndian False =
     (Inr (\<lparr>Tags = []\<rparr>, 14), \<lparr>rd_s = dangling_high, rd_i = 14\<rparr>)"
  by (simp add: tiff_eval dangling_high_def)

lemma dangling_high_field:
  "binary_Read \<lparr>rd_s = dangling_high, rd_i = 16\<rparr> LittleEndian 4 =
     (Inr (0xFFFFFFFF :: int32), \<lparr>rd_s = dangling_high, rd_i = 20\<rparr>)"
  by (simp add: read_eval dangling_high_def)

lemma dangling_high_dir_14:
  "DecodeDir sample_DecodeTag \<lparr>rd_s = dangling_high, rd_i = 14\<rparr> LittleEndian False =
     (Inr (\<lparr>Tags = []\<rparr>, - 1), \<lparr>rd_s = dangling_high, rd_i = 20\<rparr>)"
  by (simp add: tiff_eval dangling_high_def)

lemma dangling_high_walk_8:
  "Decode_walk sample_DecodeTag (NewReader dangling_high) [] \<lparr>rd_s = dangling_high, rd_i = 8\<rparr> 8
     \<lparr>Dirs = [], Order = LittleEndian, IsBig = False\<rparr>"
  using dangling_high_header by (rule Decode_walk.start)

lemma dangling_high_walk_14:
  "Decode_walk sample_DecodeTag (NewReader dangling_high) [8] \<lparr>rd_s = dangling_high, rd_i = 14\<rparr>
     14 \<lparr>Dirs = [\<lparr>Tags = []\<rparr>], Order = LittleEndian, IsBig = False\<rparr>"
  using Decode_walk.visit [OF dangling_high_walk_8, of "\<lparr>rd_s = dangling_high, rd_i = 8\<rparr>"
      "\<lparr>Tags = []\<rparr>" 14 "\<lparr>rd_s = dangling_high, rd_i = 14\<rparr>"]
  by (simp add: Seek_def dangling_high_dir_8)

lemma dangling_high_walk_last:
  "Decode_walk sample_DecodeTag (NewReader dangling_high) [8, 14]
     \<lparr>rd_s = dangling_high, rd_i = 20\<rparr> (- 1)
     \<lparr>Dirs = [\<lparr>Tags = []\<rparr>, \<lparr>Tags = []\<rparr>], Order = LittleEndian, IsBig = False\<rparr>"
  using Decode_walk.visit [OF dangling_high_walk_14, of "\<lparr>rd_s = dangling_high, rd_i = 14\<rparr>"
      "\<lparr>Tags = []\<rparr>" "- 1" "\<lparr>rd_s = dangling_high, rd_i = 20\<rparr>"]
  by (simp add: Seek_def dangling_high_dir_14)

lemma dangling_high_Decode:
  "Decode sample_DecodeTag (NewReader dangling_high) =
     Some (Inl (newTiffError ''seek to IFD failed'' (Some ErrNegativePosition)))"
proof -
  have neg: "sint (- 1 :: int64) < 0"
    by simp
  have ne: "(- 1 :: int64) \<noteq> 0"
    by simp
  have "Decode_loop sample_DecodeTag \<lparr>rd_s = dangling_high, rd_i = 20\<rparr> (- 1) (- 1)
      \<lparr>Dirs = [\<lparr>Tags = []\<rparr>, \<lparr>Tags = []\<rparr>], Order = LittleEndian, IsBig = False\<rparr> =
      Some (Inl (newTiffError ''seek to IFD failed'' (Some ErrNegativePosition)))"
    using ne neg by (intro Decode_loop_abort Decode_round_seek_failed)
  with Decode_walk_loop [OF dangling_high_walk_last] show ?thesis
    by simp
qed

lemma high_offset_header:
  "Decode_header (NewReader high_offset) =
     Inr (LittleEndian, False, scast (0x80000000 :: int32), \<lparr>rd_s = high_offset, rd_i = 8\<rparr>)"
  by (simp add: tiff_eval high_offset_def)

lemma high_offset_read:
  "binary_Read \<lparr>rd_s = high_offset, rd_i = 4\<rparr> LittleEndian 4 =
     (Inr (0x80000000 :: int32), \<lparr>rd_s = high_offset, rd_i = 8\<rparr>)"
  by (simp add: read_eval high_offset_def)

section \<open>The minimal TIFF and the empty chain\<close>

text \<open>
  Claim C6. Decoding the minimal TIFF (byte-order magic, variant marker, the offset of one
  IFD, an IFD with tag count zero and next offset zero) gives a \<open>Tiff\<close> with exactly one
  directory, which has no tags, and no error. This holds in both byte orders and both
  variants, whatever the tag decoder.
\<close>

theorem minimal_tiff_one_empty_dir:
  "Decode dt (NewReader minimal_II) =
     Some (Inr \<lparr>Dirs = [\<lparr>Tags = []\<rparr>], Order = LittleEndian, IsBig = False\<rparr>) \<and>
   Decode dt (NewReader minimal_MM) =
     Some (Inr \<lparr>Dirs = [\<lparr>Tags = []\<rparr>], Order = BigEndian, IsBig = False\<rparr>) \<and>
   Decode dt (NewReader minimal_big_II) =
     Some (Inr \<lparr>Dirs = [\<lparr>Tags = []\<rparr>], Order = LittleEndian, IsBig = True\<rparr>) \<and>
   Decode dt (NewReader minimal_big_MM) =
     Some (Inr \<lparr>Dirs = [\<lparr>Tags = []\<rparr>], Order = BigEndian, IsBig = True\<rparr>)"
proof -
  have a: "Decode dt (NewReader minimal_II) =
      Some (Inr \<lparr>Dirs = [\<lparr>Tags = []\<rparr>], Order = LittleEndian, IsBig = False\<rparr>)"
    by (simp add: tiff_eval minimal_II_def Decode_loop.simps)
  have b: "Decode dt (NewReader minimal_MM) =
      Some (Inr \<lparr>Dirs = [\<lparr>Tags = []\<rparr>], Order = BigEndian, IsBig = False\<rparr>)"
    by (simp add: tiff_eval minimal_MM_def Decode_loop.simps)
  have c: "Decode dt (NewReader minimal_big_II) =
      Some (Inr \<lparr>Dirs = [\<lparr>Tags = []\<rparr>], Order = LittleEndian, IsBig = True\<rparr>)"
    by (simp add: tiff_eval minimal_big_II_def Decode_loop.simps)
  have d: "Decode dt (NewReader minimal_big_MM) =
      Some (Inr \<lparr>Dirs = [\<lparr>Tags = []\<rparr>], Order = BigEndian, IsBig = True\<rparr>)"
    by (simp add: tiff_eval minimal_big_MM_def Decode_loop.simps)
  from a b c d show ?thesis by simp
qed

text \<open>
  Claim C8. When the header is accepted and the offset of the first IFD reads as zero,
  \<^verbatim>\<open>Decode\<close> succeeds with an empty \<open>Dirs\<close>: the loop is never entered.
\<close>

theorem first_offset_zero_no_dirs:
  assumes "Decode_header r = Inr (order, isBig, 0, r')"
  shows "Decode dt r = Some (Inr \<lparr>Dirs = [], Order = order, IsBig = isBig\<rparr>)"
  using assms by (simp add: Decode_def Decode_loop_exit)

text \<open>The header \<^verbatim>\<open>II*\0\<close> followed by four zero bytes is such an input.\<close>

theorem first_offset_zero_no_dirs_witness:
  "Decode_header (NewReader no_ifd) = Inr (LittleEndian, False, 0, \<lparr>rd_s = no_ifd, rd_i = 8\<rparr>) \<and>
   Decode sample_DecodeTag (NewReader no_ifd) =
     Some (Inr \<lparr>Dirs = [], Order = LittleEndian, IsBig = False\<rparr>)"
  using first_offset_zero_no_dirs [OF no_ifd_header, of sample_DecodeTag] no_ifd_header by simp

section \<open>Signed reads\<close>

text \<open>
  Claim C9. In the classic variant the tag count is read as a signed 16-bit integer. When
  the high bit of the count that was read is set, the sign-extended count is negative, the
  tag loop runs zero times (the tag decoder plays no part), and \<^verbatim>\<open>DecodeDir\<close> goes on to
  read the next offset: it returns a directory without tags and that offset, or the failure
  of that read.
\<close>

theorem negative_count_no_tags:
  assumes "binary_Read r order 2 = (Inr nTagsShort, r1)"
    and "bit (nTagsShort :: int16) 15"
  shows "\<exists>nTags. read_nTags r order False = (Inr nTags, r1) \<and> sint nTags < 0 \<and>
     load_tags dt order False (nat (sint nTags)) r1 [] = (Inr [], r1) \<and>
     DecodeDir dt r order False =
       (case readOffset r1 order False of
          (Inl err, r3) \<Rightarrow>
            (Inl (newTiffError ''failed to read offset to next IFD'' (Some err)), r3)
        | (Inr offset, r3) \<Rightarrow> (Inr (\<lparr>Tags = []\<rparr>, offset), r3))"
proof -
  let ?n = "scast nTagsShort :: int64"
  have rd: "read_nTags r order False = (Inr ?n, r1)"
    using assms(1) by (simp add: read_nTags_def)
  have "sint nTagsShort < 0"
    using assms(2) bit_last_iff [of nTagsShort] by simp
  then have neg: "sint ?n < 0"
    by (simp add: sint_scast_int16)
  then have z: "nat (sint ?n) = 0"
    by simp
  have lt: "load_tags dt order False (nat (sint ?n)) r1 [] = (Inr [], r1)"
    by (simp only: z load_tags.simps)
  have "DecodeDir dt r order False =
       (case readOffset r1 order False of
          (Inl err, r3) \<Rightarrow>
            (Inl (newTiffError ''failed to read offset to next IFD'' (Some err)), r3)
        | (Inr offset, r3) \<Rightarrow> (Inr (\<lparr>Tags = []\<rparr>, offset), r3))"
    by (simp add: DecodeDir_def rd lt)
  with rd neg lt show ?thesis by blast
qed

text \<open>An IFD whose count field is \<^verbatim>\<open>FF FF\<close> and whose next offset is 0.\<close>

theorem negative_count_no_tags_witness:
  "binary_Read \<lparr>rd_s = negative_count, rd_i = 8\<rparr> LittleEndian 2 =
     (Inr (0xFFFF :: int16), \<lparr>rd_s = negative_count, rd_i = 10\<rparr>) \<and>
   bit (0xFFFF :: int16) 15 \<and>
   DecodeDir sample_DecodeTag \<lparr>rd_s = negative_count, rd_i = 8\<rparr> LittleEndian False =
     (Inr (\<lparr>Tags = []\<rparr>, 0), \<lparr>rd_s = negative_count, rd_i = 14\<rparr>)"
proof -
  have b: "bit (0xFFFF :: int16) 15"
    by simp
  from negative_count_no_tags [OF negative_count_read b, of sample_DecodeTag]
  show ?thesis
    using negative_count_read b by (auto simp: negative_count_next)
qed

text \<open>
  Claim C10. In the classic variant \<^verbatim>\<open>readOffset\<close> reads the four bytes as a signed 32-bit
  integer and sign-extends it. When the field holds a value \<open>v\<close> of \<open>2^31\<close> or more, the
  offset returned is \<open>v - 2^32\<close>, which is negative; when the walk arrives at the loop test
  with that offset, the seek is refused and \<^verbatim>\<open>Decode\<close> returns the failure
  "seek to IFD failed".
\<close>

theorem classic_offset_sign_extended:
  assumes "binary_Read r order 4 = (Inr v, r1)"
    and "2 ^ 31 \<le> uint (v :: int32)"
    and "Decode_walk dt r0 vis rh (scast v) t"
  shows "readOffset r order False = (Inr (scast v), r1) \<and>
    sint (scast v :: int64) = uint v - 2 ^ 32 \<and>
    sint (scast v :: int64) < 0 \<and>
    Seek rh (scast v) = Inl ErrNegativePosition \<and>
    Decode dt r0 = Some (Inl (newTiffError ''seek to IFD failed'' (Some ErrNegativePosition)))"
proof -
  let ?offset = "scast v :: int64"
  have rd: "readOffset r order False = (Inr ?offset, r1)"
    using assms(1) by (simp add: readOffset_def)
  have val: "sint ?offset = uint v - 2 ^ 32"
    using assms(2) by (simp add: sint_scast_int32 sint_int32_high)
  have "uint v < 2 ^ 32"
    using uint_lt2p [of v] by simp
  with val have neg: "sint ?offset < 0"
    by simp
  then have ne: "?offset \<noteq> 0"
    by auto
  have sk: "Seek rh ?offset = Inl ErrNegativePosition"
    using neg by (simp add: Seek_def)
  have "Decode_loop dt rh ?offset ?offset t =
      Some (Inl (newTiffError ''seek to IFD failed'' (Some ErrNegativePosition)))"
    using ne neg by (intro Decode_loop_abort Decode_round_seek_failed)
  with Decode_walk_loop [OF assms(3)] rd val neg sk show ?thesis by simp
qed

text \<open>A classic header whose first offset field is \<^verbatim>\<open>00 00 00 80\<close>, little-endian.\<close>

theorem classic_offset_sign_extended_witness:
  "binary_Read \<lparr>rd_s = high_offset, rd_i = 4\<rparr> LittleEndian 4 =
     (Inr (0x80000000 :: int32), \<lparr>rd_s = high_offset, rd_i = 8\<rparr>) \<and>
   2 ^ 31 \<le> uint (0x80000000 :: int32) \<and>
   Decode_walk sample_DecodeTag (NewReader high_offset) [] \<lparr>rd_s = high_offset, rd_i = 8\<rparr>
     (scast (0x80000000 :: int32)) \<lparr>Dirs = [], Order = LittleEndian, IsBig = False\<rparr> \<and>
   sint (scast (0x80000000 :: int32) :: int64) = - (2 ^ 31) \<and>
   Decode sample_DecodeTag (NewReader high_offset) =
     Some (Inl (newTiffError ''seek to IFD failed'' (Some ErrNegativePosition)))"
proof -
  have h: "2 ^ 31 \<le> uint (0x80000000 :: int32)"
    by simp
  have w: "Decode_walk sample_DecodeTag (NewReader high_offset) [] \<lparr>rd_s = high_offset, rd_i = 8\<rparr>
      (scast (0x80000000 :: int32)) \<lparr>Dirs = [], Order = LittleEndian, IsBig = False\<rparr>"
    using high_offset_header by (rule Decode_walk.start)
  from classic_offset_sign_extended [OF high_offset_read h w] high_offset_read h w
  show ?thesis by simp
qed

section \<open>The cycle guard and the end-of-input policy\<close>

text \<open>
  Claim C4. When the walk arrives at an IFD whose own next offset is the offset of that
  IFD, \<^verbatim>\<open>Decode\<close> returns the failure "recursive IFD". With an empty \<open>vis\<close> this is the case
  of a sole IFD that points to itself.
\<close>

theorem self_loop_recursive_IFD:
  assumes "Decode_walk dt r0 vis r offset t"
    and "offset \<noteq> 0"
    and "Seek r offset = Inr r1"
    and "DecodeDir dt r1 (Order t) (IsBig t) = (Inr (d, offset), r2)"
  shows "Decode dt r0 = Some (Inl (newTiffError ''recursive IFD'' None))"
proof -
  have "Decode_round dt r offset offset t = Abort (newTiffError ''recursive IFD'' None)"
    using assms(3,4) by (rule Decode_round_recursive)
  then have "Decode_loop dt r offset offset t = Some (Inl (newTiffError ''recursive IFD'' None))"
    using assms(2) by (simp add: Decode_loop_abort)
  with Decode_walk_loop [OF assms(1)] show ?thesis by simp
qed

text \<open>The sole IFD at offset 8 with next offset 8.\<close>

theorem self_loop_recursive_IFD_witness:
  "Decode_walk sample_DecodeTag (NewReader self_loop) [] \<lparr>rd_s = self_loop, rd_i = 8\<rparr> 8
     \<lparr>Dirs = [], Order = LittleEndian, IsBig = False\<rparr> \<and>
   (8 :: int64) \<noteq> 0 \<and>
   Seek \<lparr>rd_s = self_loop, rd_i = 8\<rparr> 8 = Inr \<lparr>rd_s = self_loop, rd_i = 8\<rparr> \<and>
   DecodeDir sample_DecodeTag \<lparr>rd_s = self_loop, rd_i = 8\<rparr> LittleEndian False =
     (Inr (\<lparr>Tags = []\<rparr>, 8), \<lparr>rd_s = self_loop, rd_i = 14\<rparr>) \<and>
   Decode sample_DecodeTag (NewReader self_loop) =
     Some (Inl (newTiffError ''recursive IFD'' None))"
proof -
  have w: "Decode_walk sample_DecodeTag (NewReader self_loop) [] \<lparr>rd_s = self_loop, rd_i = 8\<rparr> 8
     \<lparr>Dirs = [], Order = LittleEndian, IsBig = False\<rparr>"
    using self_loop_header by (rule Decode_walk.start)
  have sk: "Seek \<lparr>rd_s = self_loop, rd_i = 8\<rparr> 8 = Inr \<lparr>rd_s = self_loop, rd_i = 8\<rparr>"
    by (simp add: Seek_def)
  have d: "DecodeDir sample_DecodeTag \<lparr>rd_s = self_loop, rd_i = 8\<rparr>
      (Order \<lparr>Dirs = [], Order = LittleEndian, IsBig = False\<rparr>)
      (IsBig \<lparr>Dirs = [], Order = LittleEndian, IsBig = False\<rparr>) =
     (Inr (\<lparr>Tags = []\<rparr>, 8), \<lparr>rd_s = self_loop, rd_i = 14\<rparr>)"
    using self_loop_dir by simp
  have ne: "(8 :: int64) \<noteq> 0"
    by simp
  from self_loop_recursive_IFD [OF w ne sk d] w ne sk self_loop_dir
  show ?thesis by simp
qed

text \<open>
  Claim C5, as the code has it. When the walk arrives at a well-formed IFD whose next
  offset, taken as the signed value that \<^verbatim>\<open>readOffset\<close> returned, lies at or past the end of
  the data, \<^verbatim>\<open>Decode\<close> returns, without error, the directories decoded before together
  with this one: the dangling offset is dropped. The statement needs no assumption that the
  IFD is not the first one; in the example it is the second.
\<close>

theorem dangling_next_offset_dropped:
  assumes "Decode_walk dt r0 vis r offset t"
    and "offset \<noteq> 0"
    and "Seek r offset = Inr r1"
    and "DecodeDir dt r1 (Order t) (IsBig t) = (Inr (d, next_offset), r2)"
    and "int (length (rd_s r)) \<le> sint next_offset"
  shows "Decode dt r0 = Some (Inr (t\<lparr>Dirs := Dirs t @ [d]\<rparr>))"
proof -
  let ?t = "t\<lparr>Dirs := Dirs t @ [d]\<rparr>"
  have r1: "rd_s r1 = rd_s r" "rd_i r1 = sint offset" "0 \<le> sint offset"
    using Seek_rd_s [OF assms(3)] by auto
  have r2: "rd_s r2 = rd_s r"
    using DecodeDir_rd_s [OF assms(4)] r1 by simp
  have inside: "sint offset < int (length (rd_s r))"
    using DecodeDir_Inr_inside [OF assms(4)] r1 by simp
  then have pos: "0 < sint next_offset" and "sint next_offset \<noteq> sint offset"
    using assms(5) r1 by auto
  then have ne: "next_offset \<noteq> offset" "next_offset \<noteq> 0"
    by auto
  have step: "Decode_walk dt r0 (vis @ [offset]) r2 next_offset ?t"
    using assms(1-4) ne by (intro Decode_walk.visit)
  obtain r3 where sk: "Seek r2 next_offset = Inr r3" and r3: "r3 = r2\<lparr>rd_i := sint next_offset\<rparr>"
    using pos by (simp add: Seek_def)
  have dd: "DecodeDir dt r3 (Order ?t) (IsBig ?t) =
      (Inl (TiffError ''failed to read IFD tag count'' (Some EOF)), r3)"
    using assms(5) r2 r3 by (simp add: DecodeDir_at_end newTiffError_def)
  have "is_TiffError_EOF (TiffError ''failed to read IFD tag count'' (Some EOF))"
    by simp
  from Decode_walk_skip [OF step ne(2) sk dd this] show ?thesis by simp
qed

text \<open>
  Two IFDs at 8 and 14 in a file of 20 bytes; the second one's next offset is 100.
\<close>

theorem dangling_next_offset_dropped_witness:
  "Decode_walk sample_DecodeTag (NewReader dangling) [8] \<lparr>rd_s = dangling, rd_i = 14\<rparr> 14
     \<lparr>Dirs = [\<lparr>Tags = []\<rparr>], Order = LittleEndian, IsBig = False\<rparr> \<and>
   (14 :: int64) \<noteq> 0 \<and>
   Seek \<lparr>rd_s = dangling, rd_i = 14\<rparr> 14 = Inr \<lparr>rd_s = dangling, rd_i = 14\<rparr> \<and>
   DecodeDir sample_DecodeTag \<lparr>rd_s = dangling, rd_i = 14\<rparr> LittleEndian False =
     (Inr (\<lparr>Tags = []\<rparr>, 100), \<lparr>rd_s = dangling, rd_i = 20\<rparr>) \<and>
   int (length dangling) \<le> sint (100 :: int64) \<and>
   Decode sample_DecodeTag (NewReader dangling) =
     Some (Inr \<lparr>Dirs = [\<lparr>Tags = []\<rparr>, \<lparr>Tags = []\<rparr>], Order = LittleEndian, IsBig = False\<rparr>)"
proof -
  have ne: "(14 :: int64) \<noteq> 0"
    by simp
  have sk: "Seek \<lparr>rd_s = dangling, rd_i = 14\<rparr> 14 = Inr \<lparr>rd_s = dangling, rd_i = 14\<rparr>"
    by (simp add: Seek_def)
  have d: "DecodeDir sample_DecodeTag \<lparr>rd_s = dangling, rd_i = 14\<rparr>
      (Order \<lparr>Dirs = [\<lparr>Tags = []\<rparr>], Order = LittleEndian, IsBig = False\<rparr>)
      (IsBig \<lparr>Dirs = [\<lparr>Tags = []\<rparr>], Order = LittleEndian, IsBig = False\<rparr>) =
     (Inr (\<lparr>Tags = []\<rparr>, 100), \<lparr>rd_s = dangling, rd_i = 20\<rparr>)"
    using dangling_dir_14 by simp
  have len: "int (length dangling) \<le> sint (100 :: int64)"
    by (simp add: dangling_def)
  have len': "int (length (rd_s \<lparr>rd_s = dangling, rd_i = 14\<rparr>)) \<le> sint (100 :: int64)"
    using len by simp
  from dangling_next_offset_dropped [OF dangling_walk_14 ne sk d len']
    dangling_walk_14 ne sk dangling_dir_14 len
  show ?thesis by simp
qed

text \<open>
  Claim C5 as stated covers every next offset that points past the end of the file. In
  \<open>dangling_high\<close> the second IFD is well formed and its next-offset field holds 4294967295,
  past the end of the 20 bytes; \<^verbatim>\<open>readOffset\<close> makes it the offset -1, the seek is refused, and
  \<^verbatim>\<open>Decode\<close> returns the failure "seek to IFD failed" instead of the two directories.
\<close>

theorem dangling_high_bit_counterexample:
  "DecodeDir sample_DecodeTag \<lparr>rd_s = dangling_high, rd_i = 14\<rparr> LittleEndian False =
     (Inr (\<lparr>Tags = []\<rparr>, - 1), \<lparr>rd_s = dangling_high, rd_i = 20\<rparr>) \<and>
   binary_Read \<lparr>rd_s = dangling_high, rd_i = 16\<rparr> LittleEndian 4 =
     (Inr (0xFFFFFFFF :: int32), \<lparr>rd_s = dangling_high, rd_i = 20\<rparr>) \<and>
   int (length dangling_high) \<le> uint (0xFFFFFFFF :: int32) \<and>
   Decode sample_DecodeTag (NewReader dangling_high) =
     Some (Inl (newTiffError ''seek to IFD failed'' (Some ErrNegativePosition)))"
proof -
  have "int (length dangling_high) \<le> uint (0xFFFFFFFF :: int32)"
    by (simp add: dangling_high_def)
  with dangling_high_dir_14 dangling_high_field dangling_high_Decode show ?thesis
    by simp
qed

text \<open>
  Claim C3, as the code has it. When \<^verbatim>\<open>DecodeDir\<close> fails with a \<open>TiffError\<close> whose
  underlying error is \<open>EOF\<close>, the IFD is skipped and the walk ends there: the round goes
  back to the loop test with the offset 0 that \<^verbatim>\<open>DecodeDir\<close> returned, and \<^verbatim>\<open>Decode\<close>
  returns the directories decoded so far and no error. The failure never surfaces.
\<close>

theorem EOF_skip_ends_walk:
  assumes "Decode_walk dt r0 vis r offset t"
    and "offset \<noteq> 0"
    and "Seek r offset = Inr r1"
    and "DecodeDir dt r1 (Order t) (IsBig t) = (Inl (TiffError msg (Some EOF)), r2)"
  shows "Decode_round dt r offset offset t = Continue r2 0 offset t \<and>
    Decode dt r0 = Some (Inr t)"
proof -
  have eof: "is_TiffError_EOF (TiffError msg (Some EOF))"
    by simp
  have "Decode_round dt r offset offset t = Continue r2 0 offset t"
    using assms(3,4) eof by (rule Decode_round_skip)
  moreover have "Decode dt r0 = Some (Inr t)"
    using assms eof by (rule Decode_walk_skip)
  ultimately show ?thesis by simp
qed

text \<open>The same file: the walk is at offset 100 with both directories decoded.\<close>

theorem EOF_skip_ends_walk_witness:
  "Decode_walk sample_DecodeTag (NewReader dangling) [8, 14] \<lparr>rd_s = dangling, rd_i = 20\<rparr> 100
     \<lparr>Dirs = [\<lparr>Tags = []\<rparr>, \<lparr>Tags = []\<rparr>], Order = LittleEndian, IsBig = False\<rparr> \<and>
   (100 :: int64) \<noteq> 0 \<and>
   Seek \<lparr>rd_s = dangling, rd_i = 20\<rparr> 100 = Inr \<lparr>rd_s = dangling, rd_i = 100\<rparr> \<and>
   DecodeDir sample_DecodeTag \<lparr>rd_s = dangling, rd_i = 100\<rparr> LittleEndian False =
     (Inl (TiffError ''failed to read IFD tag count'' (Some EOF)),
      \<lparr>rd_s = dangling, rd_i = 100\<rparr>) \<and>
   Decode sample_DecodeTag (NewReader dangling) =
     Some (Inr \<lparr>Dirs = [\<lparr>Tags = []\<rparr>, \<lparr>Tags = []\<rparr>], Order = LittleEndian, IsBig = False\<rparr>)"
proof -
  have ne: "(100 :: int64) \<noteq> 0"
    by simp
  have sk: "Seek \<lparr>rd_s = dangling, rd_i = 20\<rparr> 100 = Inr \<lparr>rd_s = dangling, rd_i = 100\<rparr>"
    by (simp add: Seek_def)
  have d: "DecodeDir sample_DecodeTag \<lparr>rd_s = dangling, rd_i = 100\<rparr>
      (Order \<lparr>Dirs = [\<lparr>Tags = []\<rparr>, \<lparr>Tags = []\<rparr>], Order = LittleEndian, IsBig = False\<rparr>)
      (IsBig \<lparr>Dirs = [\<lparr>Tags = []\<rparr>, \<lparr>Tags = []\<rparr>], Order = LittleEndian, IsBig = False\<rparr>) =
     (Inl (TiffError ''failed to read IFD tag count'' (Some EOF)),
      \<lparr>rd_s = dangling, rd_i = 100\<rparr>)"
    using dangling_dir_100 by simp
  from EOF_skip_ends_walk [OF dangling_walk_100 ne sk d]
    dangling_walk_100 ne sk dangling_dir_100
  show ?thesis by simp
qed

text \<open>
  Claim C3 as stated says that after the skip the walk continues with the next link. In
  the same file the round at offset 100 meets the end-of-input failure and does not lead to
  another round.
\<close>

theorem EOF_skip_continues_counterexample:
  "DecodeDir sample_DecodeTag \<lparr>rd_s = dangling, rd_i = 100\<rparr> LittleEndian False =
     (Inl (TiffError ''failed to read IFD tag count'' (Some EOF)),
      \<lparr>rd_s = dangling, rd_i = 100\<rparr>) \<and>
   \<not> walk_goes_on (Decode_round sample_DecodeTag \<lparr>rd_s = dangling, rd_i = 20\<rparr> 100 100
     \<lparr>Dirs = [\<lparr>Tags = []\<rparr>, \<lparr>Tags = []\<rparr>], Order = LittleEndian, IsBig = False\<rparr>)"
proof -
  have "Decode_round sample_DecodeTag \<lparr>rd_s = dangling, rd_i = 20\<rparr> 100 100
      \<lparr>Dirs = [\<lparr>Tags = []\<rparr>, \<lparr>Tags = []\<rparr>], Order = LittleEndian, IsBig = False\<rparr> =
    Continue \<lparr>rd_s = dangling, rd_i = 100\<rparr> 0 100
      \<lparr>Dirs = [\<lparr>Tags = []\<rparr>, \<lparr>Tags = []\<rparr>], Order = LittleEndian, IsBig = False\<rparr>"
    by (simp add: Decode_round_def Seek_def dangling_dir_100)
  then show ?thesis
    by (simp add: walk_goes_on_def dangling_dir_100)
qed

section \<open>The directory decoder against its specification\<close>



lemma load_tags_numeral:
  "load_tags dt order isBigTIFF (numeral n) r tags =
   load_tags dt order isBigTIFF (Suc (pred_numeral n)) r tags"
  by (simp only: numeral_eq_Suc)






section \<open>Distinct offsets\<close>

lemma chain_snoc: "chain f xs z \<Longrightarrow> f z = Some z' \<Longrightarrow> chain f (xs @ [z]) z'"
proof (induction xs)
  case Nil
  then show ?case by simp
next
  case (Cons x xs)
  then show ?case by (cases xs) auto
qed

lemma chain_suffix: "chain f (as @ ys) z \<Longrightarrow> chain f ys z"
  by (induction as) auto

lemma chain_unique:
  "chain f (x # ys) z \<Longrightarrow> chain f (x # ys') z \<Longrightarrow> f z = None \<Longrightarrow> ys = ys'"
proof (induction ys arbitrary: x ys')
  case Nil
  then show ?case by (cases ys') auto
next
  case (Cons y ys1)
  show ?case
  proof (cases ys')
    case Nil
    with Cons.prems show ?thesis by auto
  next
    case (Cons y' ys1')
    with Cons.prems have "y' = y" by auto
    with Cons.prems Cons Cons.IH [of y ys1'] show ?thesis by auto
  qed
qed

lemma chain_distinct:
  "chain f xs z \<Longrightarrow> f z = None \<Longrightarrow> distinct (xs @ [z])"
proof (induction xs)
  case Nil
  then show ?case by simp
next
  case (Cons x xs)
  then have ch: "chain f xs z" and d: "distinct (xs @ [z])"
    by auto
  from Cons.prems have "f x \<noteq> None"
    by auto
  with Cons.prems have xz: "x \<noteq> z"
    by auto
  have "x \<notin> set xs"
  proof
    assume "x \<in> set xs"
    then obtain as bs where xs: "xs = as @ x # bs"
      by (auto dest: split_list)
    with ch have "chain f (x # bs) z"
      by (auto dest: chain_suffix)
    from chain_unique [OF Cons.prems(1) this Cons.prems(2)] have "xs = bs" .
    with xs show False by auto
  qed
  with xz d show ?case by simp
qed

lemma Seek_fresh:
  "Seek r offset = Inr r1 \<Longrightarrow> Seek \<lparr>rd_s = rd_s r, rd_i = 0\<rparr> offset = Inr r1"
  by (auto simp: Seek_def split: if_splits)

lemma Decode_walk_chain:
  "Decode_walk dt r0 vis r offset t \<Longrightarrow>
   chain (ifd_next dt (rd_s r) (Order t) (IsBig t)) vis offset \<and> length (Dirs t) = length vis"
proof (induction rule: Decode_walk.induct)
  case (start order isBig offset r)
  then show ?case by simp
next
  case (visit vis r offset t r1 d offset' r2)
  have s2: "rd_s r2 = rd_s r"
    using Seek_rd_s [OF visit.hyps(3)] DecodeDir_rd_s [OF visit.hyps(4)] by simp
  have "ifd_next dt (rd_s r) (Order t) (IsBig t) offset = Some offset'"
    using visit.hyps by (simp add: ifd_next_def Seek_fresh)
  with visit.IH s2 show ?case
    by (simp add: chain_snoc)
qed

lemma Decode_loop_walk:
  assumes "Decode_loop dt r offset prev t = Some y"
  shows "(offset = 0 \<longrightarrow> y = Inr t) \<and>
    (\<forall>tf r0 vis. y = Inr tf \<longrightarrow> prev = offset \<longrightarrow> Decode_walk dt r0 vis r offset t \<longrightarrow>
      (\<exists>vis' r' offset'. Decode_walk dt r0 vis' r' offset' tf \<and>
        (offset' = 0 \<or> (\<exists>r''. Decode_round dt r' offset' offset' tf = Continue r'' 0 offset' tf))))"
  using assms
proof (induction dt r offset prev t y rule: Decode_loop.raw_induct [rotated, consumes 1])
  case (1 f dt r offset prev t y)
  show ?case
  proof (cases "offset = 0")
    case True
    with 1(2) have y: "y = Inr t"
      by simp
    show ?thesis
    proof (intro conjI allI impI)
      show "y = Inr t" by (rule y)
    next
      fix tf r0 vis
      assume "y = Inr tf" and "Decode_walk dt r0 vis r offset t"
      with y have "Decode_walk dt r0 vis r offset tf"
        by simp
      with True show "\<exists>vis' r' offset'. Decode_walk dt r0 vis' r' offset' tf \<and>
          (offset' = 0 \<or> (\<exists>r''. Decode_round dt r' offset' offset' tf = Continue r'' 0 offset' tf))"
        by blast
    qed
  next
    case nz: False
    show ?thesis
    proof (cases "Decode_round dt r offset prev t")
      case (Abort err)
      with nz 1(2) have "y = Inl err"
        by simp
      with nz show ?thesis
        by simp
    next
      case (Continue r' offset' prev' t')
      with nz 1(2) have f: "f dt r' offset' prev' t' = Some y"
        by simp
      note ih = 1(1) [OF f]
      have "\<exists>vis' r' offset'. Decode_walk dt r0 vis' r' offset' tf \<and>
          (offset' = 0 \<or> (\<exists>r''. Decode_round dt r' offset' offset' tf = Continue r'' 0 offset' tf))"
        if y: "y = Inr tf" and p: "prev = offset" and w: "Decode_walk dt r0 vis r offset t"
        for tf r0 vis
      proof -
        obtain r1 where sk: "Seek r offset = Inr r1"
          using Continue by (cases "Seek r offset") (simp_all add: Decode_round_def)
        obtain x r2 where dd: "DecodeDir dt r1 (Order t) (IsBig t) = (x, r2)"
          by (cases "DecodeDir dt r1 (Order t) (IsBig t)")
        show ?thesis
        proof (cases x)
          case (Inl err)
          with Continue sk dd have c: "offset' = 0" "t' = t" "r' = r2" "prev' = prev"
            by (auto simp: Decode_round_def split: if_splits)
          from ih c(1) have "y = Inr t'"
            by simp
          with y c have tf: "tf = t"
            by simp
          have "Decode_round dt r offset offset tf = Continue r2 0 offset tf"
            using Continue c p tf by simp
          with w tf show ?thesis
            by blast
        next
          case (Inr b)
          obtain d nxt where b: "b = (d, nxt)"
            by (cases b)
          with Inr Continue sk dd p
          have c: "nxt \<noteq> offset" "offset' = nxt" "prev' = nxt" "r' = r2"
            "t' = t\<lparr>Dirs := Dirs t @ [d]\<rparr>"
            by (auto simp: Decode_round_def split: if_splits)
          have w': "Decode_walk dt r0 (vis @ [offset]) r' offset' t'"
            unfolding c using w nz sk dd Inr b c(1) by (intro Decode_walk.visit) simp_all
          from ih have "\<forall>tf r0 vis. y = Inr tf \<longrightarrow> prev' = offset' \<longrightarrow>
              Decode_walk dt r0 vis r' offset' t' \<longrightarrow>
              (\<exists>vis' r' offset'. Decode_walk dt r0 vis' r' offset' tf \<and>
                (offset' = 0 \<or>
                 (\<exists>r''. Decode_round dt r' offset' offset' tf = Continue r'' 0 offset' tf)))"
            by (rule conjunct2)
          then show ?thesis
            using y c(2,3) w' by blast
        qed
      qed
      with nz show ?thesis
        by blast
    qed
  qed
qed

lemma Decode_round_skip_next:
  assumes "Decode_round dt r offset offset t = Continue r' 0 offset t"
    and "offset \<noteq> 0"
  shows "ifd_next dt (rd_s r) (Order t) (IsBig t) offset = None"
proof -
  obtain r1 where sk: "Seek r offset = Inr r1"
    using assms(1) by (cases "Seek r offset") (simp_all add: Decode_round_def)
  obtain x r2 where dd: "DecodeDir dt r1 (Order t) (IsBig t) = (x, r2)"
    by (cases "DecodeDir dt r1 (Order t) (IsBig t)")
  have "\<exists>err. x = Inl err"
    using assms sk dd by (cases x) (auto simp: Decode_round_def split: if_splits)
  then show ?thesis
    using assms(2) dd Seek_fresh [OF sk] by (auto simp: ifd_next_def)
qed

text \<open>
  Claim C2. When \<^verbatim>\<open>Decode\<close> returns a \<open>Tiff\<close>, its walk has ended (at offset 0 or by
  skipping an IFD at end of input) after decoding and appending the IFDs at the offsets
  \<open>vis\<close>; the length of \<open>Dirs\<close> is the number of distinct offsets in \<open>vis\<close>, and no offset
  occurs twice in \<open>vis\<close>.
\<close>

theorem Dirs_match_distinct_offsets:
  assumes "Decode dt r0 = Some (Inr t)"
  shows "\<exists>vis r offset. Decode_walk dt r0 vis r offset t \<and>
    (offset = 0 \<or> (\<exists>r'. Decode_round dt r offset offset t = Continue r' 0 offset t)) \<and>
    length (Dirs t) = card (set vis) \<and> distinct vis"
proof -
  obtain order isBig offset0 r1 where h: "Decode_header r0 = Inr (order, isBig, offset0, r1)"
    using assms by (auto simp: Decode_def split: sum.splits)
  let ?t0 = "\<lparr>Dirs = [], Order = order, IsBig = isBig\<rparr>"
  have lp: "Decode_loop dt r1 offset0 offset0 ?t0 = Some (Inr t)"
    using assms h by (simp add: Decode_def)
  have w0: "Decode_walk dt r0 [] r1 offset0 ?t0"
    using h by (rule Decode_walk.start)
  from Decode_loop_walk [OF lp] w0
  obtain vis r offset where w: "Decode_walk dt r0 vis r offset t"
    and fin: "offset = 0 \<or> (\<exists>r'. Decode_round dt r offset offset t = Continue r' 0 offset t)"
    by blast
  let ?f = "ifd_next dt (rd_s r) (Order t) (IsBig t)"
  from Decode_walk_chain [OF w] have ch: "chain ?f vis offset" and len: "length (Dirs t) = length vis"
    by auto
  have "?f offset = None"
  proof (cases "offset = 0")
    case True
    then show ?thesis by (simp add: ifd_next_def)
  next
    case False
    with fin show ?thesis by (auto dest: Decode_round_skip_next)
  qed
  with ch have "distinct (vis @ [offset])"
    by (rule chain_distinct)
  then have d: "distinct vis" by simp
  with len have "length (Dirs t) = card (set vis)"
    by (simp add: distinct_card)
  with w fin d show ?thesis by blast
qed

lemma dangling_Decode:
  "Decode sample_DecodeTag (NewReader dangling) =
     Some (Inr \<lparr>Dirs = [\<lparr>Tags = []\<rparr>, \<lparr>Tags = []\<rparr>], Order = LittleEndian, IsBig = False\<rparr>)"
proof -
  have ne: "(100 :: int64) \<noteq> 0"
    by simp
  have sk: "Seek \<lparr>rd_s = dangling, rd_i = 20\<rparr> 100 = Inr \<lparr>rd_s = dangling, rd_i = 100\<rparr>"
    by (simp add: Seek_def)
  have d: "DecodeDir sample_DecodeTag \<lparr>rd_s = dangling, rd_i = 100\<rparr>
      (Order \<lparr>Dirs = [\<lparr>Tags = []\<rparr>, \<lparr>Tags = []\<rparr>], Order = LittleEndian, IsBig = False\<rparr>)
      (IsBig \<lparr>Dirs = [\<lparr>Tags = []\<rparr>, \<lparr>Tags = []\<rparr>], Order = LittleEndian, IsBig = False\<rparr>) =
     (Inl (TiffError ''failed to read IFD tag count'' (Some EOF)),
      \<lparr>rd_s = dangling, rd_i = 100\<rparr>)"
    using dangling_dir_100 by simp
  have "is_TiffError_EOF (TiffError ''failed to read IFD tag count'' (Some EOF))"
    by simp
  from Decode_walk_skip [OF dangling_walk_100 ne sk d this] show ?thesis .
qed

text \<open>The file with two IFDs and a dangling last offset: two directories, two offsets.\<close>

theorem Dirs_match_distinct_offsets_witness:
  "Decode sample_DecodeTag (NewReader dangling) =
     Some (Inr \<lparr>Dirs = [\<lparr>Tags = []\<rparr>, \<lparr>Tags = []\<rparr>], Order = LittleEndian, IsBig = False\<rparr>) \<and>
   (\<exists>vis r offset.
      Decode_walk sample_DecodeTag (NewReader dangling) vis r offset
        \<lparr>Dirs = [\<lparr>Tags = []\<rparr>, \<lparr>Tags = []\<rparr>], Order = LittleEndian, IsBig = False\<rparr> \<and>
      card (set vis) = 2 \<and> distinct vis)"
proof -
  let ?t = "\<lparr>Dirs = [\<lparr>Tags = []\<rparr>, \<lparr>Tags = []\<rparr>], Order = LittleEndian, IsBig = False\<rparr>
    :: nat Tiff"
  from Dirs_match_distinct_offsets [OF dangling_Decode]
  obtain vis r offset where w: "Decode_walk sample_DecodeTag (NewReader dangling) vis r offset ?t"
    and c: "length (Dirs ?t) = card (set vis)" and d: "distinct vis"
    by blast
  from c have "card (set vis) = 2"
    by simp
  with w d dangling_Decode show ?thesis
    by blast
qed

section \<open>A chain that comes back to its start\<close>

lemma two_cycle_header:
  "Decode_header (NewReader two_cycle) =
     Inr (LittleEndian, False, 8, \<lparr>rd_s = two_cycle, rd_i = 8\<rparr>)"
  by (simp add: tiff_eval two_cycle_def)

lemma two_cycle_dir_8:
  "DecodeDir dt \<lparr>rd_s = two_cycle, rd_i = 8\<rparr> LittleEndian False =
     (Inr (\<lparr>Tags = []\<rparr>, 14), \<lparr>rd_s = two_cycle, rd_i = 14\<rparr>)"
  by (simp add: tiff_eval two_cycle_def)

lemma two_cycle_dir_14:
  "DecodeDir dt \<lparr>rd_s = two_cycle, rd_i = 14\<rparr> LittleEndian False =
     (Inr (\<lparr>Tags = []\<rparr>, 8), \<lparr>rd_s = two_cycle, rd_i = 20\<rparr>)"
  by (simp add: tiff_eval two_cycle_def)

lemma two_cycle_round:
  assumes "on_two_cycle r offset prev t"
  shows "\<exists>r' offset' t'. Decode_round dt r offset prev t = Continue r' offset' offset' t' \<and>
    on_two_cycle r' offset' offset' t'"
proof -
  from assms have r: "r = \<lparr>rd_s = two_cycle, rd_i = rd_i r\<rparr>"
    and t: "Order t = LittleEndian" "IsBig t = False" and p: "prev = offset"
    and o: "offset = 8 \<or> offset = 14"
    by (simp_all add: on_two_cycle_def)
  from o show ?thesis
  proof
    assume o8: "offset = 8"
    have "Seek r 8 = Inr \<lparr>rd_s = two_cycle, rd_i = 8\<rparr>"
      by (subst r) (simp add: Seek_def)
    then have "Decode_round dt r offset prev t =
        Continue \<lparr>rd_s = two_cycle, rd_i = 14\<rparr> 14 14 (t\<lparr>Dirs := Dirs t @ [\<lparr>Tags = []\<rparr>]\<rparr>)"
      using o8 p t by (simp add: Decode_round_def two_cycle_dir_8)
    moreover have "on_two_cycle \<lparr>rd_s = two_cycle, rd_i = 14\<rparr> 14 14
        (t\<lparr>Dirs := Dirs t @ [\<lparr>Tags = []\<rparr>]\<rparr>)"
      using t by (simp add: on_two_cycle_def)
    ultimately show ?thesis by blast
  next
    assume o14: "offset = 14"
    have "Seek r 14 = Inr \<lparr>rd_s = two_cycle, rd_i = 14\<rparr>"
      by (subst r) (simp add: Seek_def)
    then have "Decode_round dt r offset prev t =
        Continue \<lparr>rd_s = two_cycle, rd_i = 20\<rparr> 8 8 (t\<lparr>Dirs := Dirs t @ [\<lparr>Tags = []\<rparr>]\<rparr>)"
      using o14 p t by (simp add: Decode_round_def two_cycle_dir_14)
    moreover have "on_two_cycle \<lparr>rd_s = two_cycle, rd_i = 20\<rparr> 8 8
        (t\<lparr>Dirs := Dirs t @ [\<lparr>Tags = []\<rparr>]\<rparr>)"
      using t by (simp add: on_two_cycle_def)
    ultimately show ?thesis by blast
  qed
qed

lemma two_cycle_no_result:
  assumes "Decode_loop dt r offset prev t = Some y"
  shows "\<not> on_two_cycle r offset prev t"
  using assms
proof (induction dt r offset prev t y rule: Decode_loop.raw_induct [rotated, consumes 1])
  case (1 f dt r offset prev t y)
  show ?case
  proof
    assume c: "on_two_cycle r offset prev t"
    then have nz: "offset \<noteq> 0"
      by (auto simp: on_two_cycle_def)
    from two_cycle_round [OF c, of dt] obtain r' offset' t'
      where rnd: "Decode_round dt r offset prev t = Continue r' offset' offset' t'"
        and c': "on_two_cycle r' offset' offset' t'"
      by blast
    from 1(2) nz rnd have "f dt r' offset' offset' t' = Some y"
      by simp
    from 1(1) [OF this] c' show False
      by simp
  qed
qed

text \<open>
  Claim C1 says that \<^verbatim>\<open>Decode\<close> terminates on every input. On \<open>two_cycle\<close>, where the IFD
  at 8 names the IFD at 14 and the IFD at 14 names the IFD at 8, the guard never fires,
  since each next offset differs from the offset just visited, and \<^verbatim>\<open>Decode\<close> does not
  return.
\<close>

theorem two_cycle_never_returns: "Decode dt (NewReader two_cycle) = None"
proof (cases "Decode dt (NewReader two_cycle)")
  case None
  then show ?thesis .
next
  case (Some y)
  then have "Decode_loop dt \<lparr>rd_s = two_cycle, rd_i = 8\<rparr> 8 8
      \<lparr>Dirs = [], Order = LittleEndian, IsBig = False\<rparr> = Some y"
    by (simp add: Decode_def two_cycle_header)
  then have "\<not> on_two_cycle \<lparr>rd_s = two_cycle, rd_i = 8\<rparr> 8 8
      \<lparr>Dirs = [] :: 'a Dir list, Order = LittleEndian, IsBig = False\<rparr>"
    by (rule two_cycle_no_result)
  then show ?thesis
    by (simp add: on_two_cycle_def)
qed


end
